theory Spec2Isabelle
  imports Complex_Main "HOL-Library.Multiset" "HOL-Library.Log_Nat"
begin

section \<open>Data model\<close>

text \<open>
  The server keeps no state of its own: every route handler of \<^verbatim>\<open>src/unnamed/part_000\<close>
  issues a few calls to the hosted database and answers with JSON. The tables are modelled as
  lists of rows in insertion order. The primary keys are called \<open>b_id\<close>, \<open>cat_id\<close> and
  \<open>c_id\<close> (the column is \<^verbatim>\<open>id\<close> in each table), and the book's \<^verbatim>\<open>created_at\<close>
  is \<open>b_created_at\<close>. \<open>total_votes\<close> is a non-negative integer; \<open>average_rating\<close> and the
  rating of a request are JavaScript numbers, held as reals. The handler \<open>rateBook\<close> below
  reads the arithmetic of the source exactly; \<open>rateBook64\<close> evaluates the same expression
  in binary64, rounding after every operation as JavaScript does.
\<close>

record book =
  b_id :: int
  title :: string
  author :: string
  image_url :: string
  description :: string
  b_created_at :: int
  pages :: int
  year :: int
  category_id :: "int option"
  total_votes :: nat
  average_rating :: real
  age_range :: string

record category =
  cat_id :: int
  name :: string

record comment =
  c_id :: int
  book_id :: int
  comment_text :: string
  created_at :: int

text \<open>\<open>comment_seq\<close> is the sequence the store draws the next comment id from.\<close>

record database =
  books :: "book list"
  categories :: "category list"
  comments :: "comment list"
  comment_seq :: int

section \<open>The store client\<close>

text \<open>
  The handlers reach the store through six kinds of call. A call never throws: it returns
  \<^verbatim>\<open>{ data, error }\<close>, here a value of \<open>store_error + 'a\<close>. Which calls fail is an
  input of the model (\<open>faults\<close>); a call that fails leaves the tables as they were. The
  \<open>world\<close> holds the tables and the log of the calls issued so far, so that "no store
  access" and "the remaining steps are skipped" can be stated.
\<close>

datatype store_call = FindBook | Insert | ListComments | Delete | Update | ReadBack

datatype store_error = Unavailable store_call | NotSingle | InvalidInput

type_synonym faults = "store_call \<Rightarrow> bool"

record world =
  db :: database
  calls :: "store_call list"

definition issue :: "store_call \<Rightarrow> world \<Rightarrow> world" where
  "issue c w = w\<lparr>calls := calls w @ [c]\<rparr>"

text \<open>\<^verbatim>\<open>.single()\<close>: exactly one row, or an error.\<close>

definition single :: "'a list \<Rightarrow> store_error + 'a" where
  "single rows = (case rows of [r] \<Rightarrow> Inr r | _ \<Rightarrow> Inl NotSingle)"

text \<open>
  The book id of a request is \<^verbatim>\<open>parseInt(req.params.id, 10)\<close>, a built-in: its result
  is the handlers' input, \<open>None\<close> for \<^verbatim>\<open>NaN\<close>. No row has the id \<^verbatim>\<open>NaN\<close>; the store
  rejects it.
\<close>

definition findBookById :: "faults \<Rightarrow> int option \<Rightarrow> world \<Rightarrow> (store_error + book) \<times> world" where
  "findBookById flt bookId w =
     (if flt FindBook then Inl (Unavailable FindBook)
      else case bookId of
             None \<Rightarrow> Inl InvalidInput
           | Some i \<Rightarrow> single (filter (\<lambda>b. b_id b = i) (books (db w))),
      issue FindBook w)"

text \<open>The store gives the new row its id and its creation timestamp (\<open>now\<close>, the store's clock).\<close>

definition insertComment ::
  "faults \<Rightarrow> int option \<Rightarrow> string \<Rightarrow> int \<Rightarrow> world \<Rightarrow> (store_error + unit) \<times> world" where
  "insertComment flt bookId text now w =
     (if flt Insert then (Inl (Unavailable Insert), issue Insert w)
      else case bookId of
             None \<Rightarrow> (Inl InvalidInput, issue Insert w)
           | Some i \<Rightarrow>
               (Inr (),
                (issue Insert w)\<lparr>db := (db w)\<lparr>
                   comments := comments (db w) @
                     [\<lparr>c_id = comment_seq (db w), book_id = i, comment_text = text,
                       created_at = now\<rparr>],
                   comment_seq := comment_seq (db w) + 1\<rparr>\<rparr>))"

text \<open>
  \<^verbatim>\<open>.order('created_at', { ascending: true })\<close>: the rows of the book, oldest first. The
  query names no second key, so the order of rows of equal timestamp is the store's choice:
  the ordering \<open>orderBy\<close> is an input of the model, and \<open>ascending orderBy\<close> says that it
  returns the rows it is given in ascending order of \<open>created_at\<close>.
\<close>

type_synonym ordering = "comment list \<Rightarrow> comment list"

definition ascending :: "ordering \<Rightarrow> bool" where
  "ascending orderBy =
     (\<forall>xs. mset (orderBy xs) = mset xs \<and> sorted (map created_at (orderBy xs)))"

definition listCommentsByBook ::
  "faults \<Rightarrow> ordering \<Rightarrow> int option \<Rightarrow> world \<Rightarrow> (store_error + comment list) \<times> world" where
  "listCommentsByBook flt orderBy bookId w =
     (if flt ListComments then Inl (Unavailable ListComments)
      else case bookId of
             None \<Rightarrow> Inl InvalidInput
           | Some i \<Rightarrow> Inr (orderBy (filter (\<lambda>c. book_id c = i) (comments (db w)))),
      issue ListComments w)"

definition deleteComment :: "faults \<Rightarrow> int \<Rightarrow> world \<Rightarrow> (store_error + unit) \<times> world" where
  "deleteComment flt commentId w =
     (if flt Delete then (Inl (Unavailable Delete), issue Delete w)
      else (Inr (),
            (issue Delete w)\<lparr>db := (db w)\<lparr>
               comments := filter (\<lambda>c. c_id c \<noteq> commentId) (comments (db w))\<rparr>\<rparr>))"

definition updateBook ::
  "faults \<Rightarrow> int option \<Rightarrow> nat \<Rightarrow> real \<Rightarrow> world \<Rightarrow> (store_error + unit) \<times> world" where
  "updateBook flt bookId votes rating w =
     (if flt Update then (Inl (Unavailable Update), issue Update w)
      else case bookId of
             None \<Rightarrow> (Inl InvalidInput, issue Update w)
           | Some i \<Rightarrow>
               (Inr (),
                (issue Update w)\<lparr>db := (db w)\<lparr>
                   books := map (\<lambda>b. if b_id b = i
                                      then b\<lparr>total_votes := votes, average_rating := rating\<rparr>
                                      else b) (books (db w))\<rparr>\<rparr>))"

text \<open>The projection every handler answers with: the book, its category's name, its comments.\<close>

record book_view =
  vbook :: book
  vcategory :: "string option"
  vcomments :: "(int \<times> string) list"

definition project :: "database \<Rightarrow> book \<Rightarrow> book_view" where
  "project d b =
     \<lparr>vbook = b,
      vcategory = (case category_id b of
                     None \<Rightarrow> None
                   | Some k \<Rightarrow> map_option name (find (\<lambda>c. cat_id c = k) (categories d))),
      vcomments = map (\<lambda>c. (c_id c, comment_text c))
                    (filter (\<lambda>c. book_id c = b_id b) (comments d))\<rparr>"

definition findBookWithRelations ::
  "faults \<Rightarrow> int option \<Rightarrow> world \<Rightarrow> (store_error + book_view) \<times> world" where
  "findBookWithRelations flt bookId w =
     (if flt ReadBack then Inl (Unavailable ReadBack)
      else case bookId of
             None \<Rightarrow> Inl InvalidInput
           | Some i \<Rightarrow> map_sum (\<lambda>e. e) (project (db w))
                         (single (filter (\<lambda>b. b_id b = i) (books (db w)))),
      issue ReadBack w)"

section \<open>The handlers\<close>

datatype response =
    Ok200 book_view
  | Created book_view
  | BadRequest
  | NotFound
  | ServerError store_error

fun status :: "response \<Rightarrow> nat" where
  "status (Ok200 _) = 200"
| "status (Created _) = 201"
| "status BadRequest = 400"
| "status NotFound = 404"
| "status (ServerError _) = 500"

text \<open>
  \<^verbatim>\<open>POST /books/:id/comments\<close> (part_000, lines 114-180; \<^verbatim>\<open>src/server.js\<close>, lines
  105-168, has the same steps). The text of the comment is passed on as it is. The result of
  the delete is not read: the handler goes on whether it failed or not.
\<close>

definition addComment ::
  "faults \<Rightarrow> ordering \<Rightarrow> int option \<Rightarrow> string \<Rightarrow> int \<Rightarrow> world \<Rightarrow> response \<times> world" where
  "addComment flt orderBy bookId text now w =
     (case findBookById flt bookId w of
        (Inl bookError, w1) \<Rightarrow> (NotFound, w1)
      | (Inr book, w1) \<Rightarrow>
          (case insertComment flt bookId text now w1 of
             (Inl insertError, w2) \<Rightarrow> (ServerError insertError, w2)
           | (Inr _, w2) \<Rightarrow>
               (case listCommentsByBook flt orderBy bookId w2 of
                  (Inl commentsError, w3) \<Rightarrow> (ServerError commentsError, w3)
                | (Inr cs, w3) \<Rightarrow>
                    (let w4 = (if length cs > 20
                               then snd (deleteComment flt (c_id (cs ! 0)) w3)
                               else w3)
                     in case findBookWithRelations flt bookId w4 of
                          (Inl updatedBookError, w5) \<Rightarrow> (ServerError updatedBookError, w5)
                        | (Inr updatedBook, w5) \<Rightarrow> (Created updatedBook, w5)))))"

text \<open>
  \<^verbatim>\<open>POST /books/:id/rate\<close> (part_000, lines 288-347). The rating is the number of the
  request body; a body whose rating is not a number is outside the model. The range check
  comes before the \<^verbatim>\<open>try\<close> block and before the first store call.
\<close>

definition rateBook :: "faults \<Rightarrow> int option \<Rightarrow> real \<Rightarrow> world \<Rightarrow> response \<times> world" where
  "rateBook flt bookId rating w =
     (if rating < 1 \<or> rating > 5 then (BadRequest, w)
      else case findBookById flt bookId w of
             (Inl fetchError, w1) \<Rightarrow> (NotFound, w1)
           | (Inr book, w1) \<Rightarrow>
               (let newTotalVotes = total_votes book + 1;
                    newAverageRating =
                      (average_rating book * real (total_votes book) + rating) / real newTotalVotes
                in case updateBook flt bookId newTotalVotes newAverageRating w1 of
                     (Inl updateError, w2) \<Rightarrow> (ServerError updateError, w2)
                   | (Inr _, w2) \<Rightarrow>
                       (case findBookWithRelations flt bookId w2 of
                          (Inl updatedBookError, w3) \<Rightarrow> (ServerError updatedBookError, w3)
                        | (Inr updatedBook, w3) \<Rightarrow> (Ok200 updatedBook, w3))))"

text \<open>Several ratings, one request after the other.\<close>

fun rateAll :: "faults \<Rightarrow> int option \<Rightarrow> real list \<Rightarrow> world \<Rightarrow> world" where
  "rateAll flt bookId [] w = w"
| "rateAll flt bookId (r # rs) w = rateAll flt bookId rs (snd (rateBook flt bookId r w))"

section \<open>The arithmetic of the rating in binary64\<close>

text \<open>
  A JavaScript number is an IEEE 754 binary64 value, and each of \<^verbatim>\<open>*\<close>, \<^verbatim>\<open>+\<close> and
  \<^verbatim>\<open>/\<close> returns the exact result rounded to the nearest such value, ties to the even
  significand. \<open>binade x\<close> is the exponent of \<open>x > 0\<close>, the integer \<open>e\<close> with
  \<open>2^e \<le> x < 2^(e+1)\<close>; \<open>fl\<close> rounds to 53 significant bits, with the fixed spacing of
  the subnormal numbers below \<open>2^-1022\<close>. Overflow to \<^verbatim>\<open>Infinity\<close> is not modelled: the
  values of the rating arithmetic stay far below it.
\<close>

definition round_even :: "real \<Rightarrow> int" where
  "round_even x =
     (let f = \<lfloor>x\<rfloor>; d = x - of_int f
      in if d < 1 / 2 then f else if 1 / 2 < d then f + 1 else if even f then f else f + 1)"

definition binade :: "real \<Rightarrow> int" where
  "binade x =
     (if 1 \<le> x then int (floorlog 2 (nat \<lfloor>x\<rfloor>)) - 1
      else (let k = int (floorlog 2 (nat \<lfloor>1 / x\<rfloor>)) - 1
            in if x * 2 ^ nat k = 1 then - k else - k - 1))"

definition pow2 :: "int \<Rightarrow> real" where
  "pow2 e = (if 0 \<le> e then 2 ^ nat e else 1 / 2 ^ nat (- e))"

definition fl :: "real \<Rightarrow> real" where
  "fl x =
     (if x = 0 then 0
      else (let e = max (binade \<bar>x\<bar>) (- 1022);
                m = round_even (\<bar>x\<bar> * pow2 (52 - e))
            in sgn x * of_int m * pow2 (e - 52)))"

text \<open>
  The handler again, with line 310 evaluated as JavaScript evaluates it. The rating of the
  request and the average read from the store are JavaScript numbers already, that is
  binary64 values. The vote count is an integer far below \<open>2^53\<close> and exact in binary64; it
  stays a natural number.
\<close>

definition rateBook64 :: "faults \<Rightarrow> int option \<Rightarrow> real \<Rightarrow> world \<Rightarrow> response \<times> world" where
  "rateBook64 flt bookId rating w =
     (if rating < 1 \<or> rating > 5 then (BadRequest, w)
      else case findBookById flt bookId w of
             (Inl fetchError, w1) \<Rightarrow> (NotFound, w1)
           | (Inr book, w1) \<Rightarrow>
               (let newTotalVotes = total_votes book + 1;
                    newAverageRating =
                      fl (fl (fl (average_rating book * real (total_votes book)) + rating)
                            / real newTotalVotes)
                in case updateBook flt bookId newTotalVotes newAverageRating w1 of
                     (Inl updateError, w2) \<Rightarrow> (ServerError updateError, w2)
                   | (Inr _, w2) \<Rightarrow>
                       (case findBookWithRelations flt bookId w2 of
                          (Inl updatedBookError, w3) \<Rightarrow> (ServerError updatedBookError, w3)
                        | (Inr updatedBook, w3) \<Rightarrow> (Ok200 updatedBook, w3))))"

fun rateAll64 :: "faults \<Rightarrow> int option \<Rightarrow> real list \<Rightarrow> world \<Rightarrow> world" where
  "rateAll64 flt bookId [] w = w"
| "rateAll64 flt bookId (r # rs) w = rateAll64 flt bookId rs (snd (rateBook64 flt bookId r w))"

text \<open>The running average of line 310 over a list of ratings, from \<open>n\<close> votes and average \<open>a\<close>.\<close>

fun running64 :: "nat \<Rightarrow> real \<Rightarrow> real list \<Rightarrow> real" where
  "running64 n a [] = a"
| "running64 n a (r # rs) =
     running64 (n + 1) (fl (fl (fl (a * real n) + r) / real (n + 1))) rs"

section \<open>The json-server variant\<close>

text \<open>
  \<^verbatim>\<open>src/unnamed/part_001\<close> is an earlier server over a JSON file: a book carries its
  comments as an array of texts, the handler pushes the new text, shifts the first one out
  when there are more than 20, and assigns the array to the first book of that id.
\<close>

record jbook =
  jb_id :: int
  jb_comments :: "string list"

fun assignComments :: "int \<Rightarrow> string list \<Rightarrow> jbook list \<Rightarrow> jbook list" where
  "assignComments i cs [] = []"
| "assignComments i cs (b # bs) =
     (if jb_id b = i then b\<lparr>jb_comments := cs\<rparr> # bs else b # assignComments i cs bs)"

definition addCommentJson :: "int option \<Rightarrow> string \<Rightarrow> jbook list \<Rightarrow> nat \<times> jbook list" where
  "addCommentJson bookId comment bs =
     (case bookId of
        None \<Rightarrow> (404, bs)
      | Some i \<Rightarrow>
          (case find (\<lambda>b. jb_id b = i) bs of
             None \<Rightarrow> (404, bs)
           | Some book \<Rightarrow>
               (let pushed = jb_comments book @ [comment];
                    kept = (if length pushed > 20 then tl pushed else pushed)
                in (201, assignComments i kept bs))))"

section \<open>Observers and example stores\<close>

text \<open>What a lookup of the book sees in the tables, and the comments of a book.\<close>

definition lookup :: "int \<Rightarrow> world \<Rightarrow> store_error + book" where
  "lookup i w = single (filter (\<lambda>b. b_id b = i) (books (db w)))"

definition commentsOf :: "int \<Rightarrow> world \<Rightarrow> comment list" where
  "commentsOf i w = filter (\<lambda>c. book_id c = i) (comments (db w))"

definition no_faults :: faults where
  "no_faults c = False"

text \<open>The primary key of the comments: ids are unique and below the sequence.\<close>

definition wf_comments :: "database \<Rightarrow> bool" where
  "wf_comments d =
     (distinct (map c_id (comments d)) \<and> list_all (\<lambda>c. c_id c < comment_seq d) (comments d))"

definition delete_fails :: faults where
  "delete_fails c = (c = Delete)"

text \<open>
  Stores to evaluate the handlers on: one book without comments or votes, the same book with
  20 comments of increasing timestamps, and two books.
\<close>

definition book1 :: book where
  "book1 = \<lparr>b_id = 1, title = ''Emma'', author = ''Austen'', image_url = ''emma.png'',
            description = ''A novel'', b_created_at = 50, pages = 474, year = 1815,
            category_id = Some 1, total_votes = 0, average_rating = 0, age_range = ''12+''\<rparr>"

definition fresh_world :: world where
  "fresh_world =
     \<lparr>db = \<lparr>books = [book1], categories = [\<lparr>cat_id = 1, name = ''Fiction''\<rparr>],
             comments = [], comment_seq = 1\<rparr>,
      calls = []\<rparr>"

definition old_comment :: "nat \<Rightarrow> comment" where
  "old_comment k = \<lparr>c_id = int k, book_id = 1, comment_text = ''old'', created_at = 100 + int k\<rparr>"

definition full_world :: world where
  "full_world =
     \<lparr>db = \<lparr>books = [book1], categories = [\<lparr>cat_id = 1, name = ''Fiction''\<rparr>],
             comments = map old_comment [1..<21], comment_seq = 21\<rparr>,
      calls = []\<rparr>"

text \<open>
  Two orderings that are ascending in \<open>created_at\<close>: they differ on rows of equal
  timestamp only, which the first keeps in insertion order and the second reverses. The store
  \<open>tie_world\<close> has 20 comments, the first two of the same timestamp.
\<close>

definition by_created_at :: ordering where
  "by_created_at = sort_key created_at"

definition ties_newest_first :: ordering where
  "ties_newest_first xs = sort_key created_at (rev xs)"

definition tie_comment :: "nat \<Rightarrow> comment" where
  "tie_comment k =
     \<lparr>c_id = int k, book_id = 1, comment_text = ''old'',
      created_at = (if k \<le> 2 then 100 else 100 + int k)\<rparr>"

definition tie_world :: world where
  "tie_world =
     \<lparr>db = \<lparr>books = [book1], categories = [\<lparr>cat_id = 1, name = ''Fiction''\<rparr>],
             comments = map tie_comment [1..<21], comment_seq = 21\<rparr>,
      calls = []\<rparr>"

definition book2 :: book where
  "book2 = \<lparr>b_id = 2, title = ''Ulysses'', author = ''Joyce'', image_url = ''ulysses.png'',
            description = ''Another novel'', b_created_at = 60, pages = 730, year = 1922,
            category_id = None, total_votes = 3, average_rating = 4, age_range = ''16+''\<rparr>"

definition shelf_world :: world where
  "shelf_world =
     \<lparr>db = \<lparr>books = [book1, book2], categories = [\<lparr>cat_id = 1, name = ''Fiction''\<rparr>],
             comments = [\<lparr>c_id = 1, book_id = 2, comment_text = ''long'', created_at = 70\<rparr>],
             comment_seq = 2\<rparr>,
      calls = []\<rparr>"

section \<open>Properties\<close>

lemma lookup_issue [simp]: "lookup i (issue c w) = lookup i w"
  by (simp add: lookup_def issue_def)

lemma db_issue [simp]: "db (issue c w) = db w"
  by (simp add: issue_def)

lemma filter_map_same_id:
  "filter (\<lambda>b. b_id b = i) (map (\<lambda>b. if b_id b = i then b\<lparr>total_votes := n, average_rating := a\<rparr> else b) bs)
   = map (\<lambda>b. b\<lparr>total_votes := n, average_rating := a\<rparr>) (filter (\<lambda>b. b_id b = i) bs)"
  by (induction bs) auto

lemma single_Inr: "single rows = Inr r \<longleftrightarrow> rows = [r]"
  by (auto simp: single_def split: list.splits)

lemma findBookById_ok:
  "\<not> flt FindBook \<Longrightarrow> findBookById flt (Some i) w = (lookup i w, issue FindBook w)"
  by (simp add: findBookById_def lookup_def)

lemma rateBook_db:
  assumes "lookup i w = Inr b" "\<not> flt FindBook" "\<not> flt Update" "1 \<le> r" "r \<le> 5"
  shows "db (snd (rateBook flt (Some i) r w)) =
     (db w)\<lparr>books := map (\<lambda>x. if b_id x = i
                 then x\<lparr>total_votes := total_votes b + 1,
                        average_rating := (average_rating b * real (total_votes b) + r) / real (total_votes b + 1)\<rparr>
                 else x) (books (db w))\<rparr>"
  using assms
  by (simp add: rateBook_def findBookById_ok updateBook_def findBookWithRelations_def Let_def
        split: prod.splits sum.splits)

lemma rateBook_lookup:
  assumes "lookup i w = Inr b" "\<not> flt FindBook" "\<not> flt Update" "1 \<le> r" "r \<le> 5"
  shows "lookup i (snd (rateBook flt (Some i) r w)) =
     Inr (b\<lparr>total_votes := total_votes b + 1,
            average_rating := (average_rating b * real (total_votes b) + r) / real (total_votes b + 1)\<rparr>)"
proof -
  from assms(1) have "filter (\<lambda>x. b_id x = i) (books (db w)) = [b]"
    by (simp add: lookup_def single_Inr)
  then show ?thesis
    unfolding lookup_def rateBook_db [OF assms]
    by (simp add: filter_map_same_id single_def)
qed

lemma rateAll_lookup:
  assumes "\<not> flt FindBook" "\<not> flt Update"
  shows "lookup i w = Inr b \<Longrightarrow> \<forall>r\<in>set rs. 1 \<le> r \<and> r \<le> 5 \<Longrightarrow>
    lookup i (rateAll flt (Some i) rs w) =
      Inr (b\<lparr>total_votes := total_votes b + length rs,
             average_rating :=
               (if rs = [] then average_rating b
                else (average_rating b * real (total_votes b) + sum_list rs)
                       / real (total_votes b + length rs))\<rparr>)"
proof (induction rs arbitrary: w b)
  case Nil
  then show ?case by simp
next
  case (Cons r rs)
  let ?b1 = "b\<lparr>total_votes := total_votes b + 1,
            average_rating := (average_rating b * real (total_votes b) + r) / real (total_votes b + 1)\<rparr>"
  from Cons.prems have r: "1 \<le> r" "r \<le> 5" and rs: "\<forall>r\<in>set rs. 1 \<le> r \<and> r \<le> 5"
    by simp_all
  have step: "lookup i (snd (rateBook flt (Some i) r w)) = Inr ?b1"
    by (rule rateBook_lookup [OF Cons.prems(1) assms r])
  have mean: "average_rating ?b1 * real (total_votes ?b1) = average_rating b * real (total_votes b) + r"
    by simp
  show ?case
    using Cons.IH [OF step rs] mean
    by (simp add: add.assoc add.commute add.left_commute)
qed


lemma fresh_lookup: "lookup 1 fresh_world = Inr book1"
  by (simp add: lookup_def fresh_world_def book1_def single_def)


text \<open>
  Claim C4, as amended. A rating below 1 or above 5 is answered with 400 at once: the world is
  returned as it was, so no call reached the store and no table changed. The ratings 0 and 6
  are such ratings. The handler checks the range only, not that the rating is an integer.
\<close>

theorem rateBook_rejects_out_of_range:
  "(r < 1 \<or> r > 5 \<longrightarrow> rateBook flt bookId r w = (BadRequest, w))
   \<and> rateBook flt bookId 0 w = (BadRequest, w)
   \<and> rateBook flt bookId 6 w = (BadRequest, w)"
  by (simp add: rateBook_def)

theorem rateBook_rejects_out_of_range_witness:
  "rateBook no_faults (Some 1) (-3) fresh_world = (BadRequest, fresh_world)
   \<and> rateBook no_faults (Some 1) 0 fresh_world = (BadRequest, fresh_world)
   \<and> rateBook no_faults (Some 1) 6 fresh_world = (BadRequest, fresh_world)"
  using rateBook_rejects_out_of_range [of "-3" no_faults "Some 1" fresh_world] by simp

lemma half_not_int: "(5 / 2 :: real) \<notin> \<int>"
proof
  assume "(5 / 2 :: real) \<in> \<int>"
  then obtain k :: int where "(5 / 2 :: real) = of_int k" by (rule Ints_cases)
  then have "real_of_int 5 = real_of_int (2 * k)" by simp
  then have "(5::int) = 2 * k" by (simp only: of_int_eq_iff)
  then show False by presburger
qed

text \<open>
  Claim C4 as stated fails: 5/2 is not an integer, yet the handler accepts it and records the
  vote.
\<close>

theorem rateBook_accepts_fraction:
  "(5 / 2 :: real) \<notin> \<int>
   \<and> status (fst (rateBook no_faults (Some 1) (5 / 2) fresh_world)) = 200
   \<and> lookup 1 (snd (rateBook no_faults (Some 1) (5 / 2) fresh_world)) =
       Inr (book1\<lparr>total_votes := 1, average_rating := 5 / 2\<rparr>)"
proof -
  have "status (fst (rateBook no_faults (Some 1) (5 / 2) fresh_world)) = 200"
    by (simp add: rateBook_def no_faults_def findBookById_def updateBook_def
          findBookWithRelations_def fresh_world_def single_def issue_def Let_def book1_def)
  moreover have "lookup 1 (snd (rateBook no_faults (Some 1) (5 / 2) fresh_world)) =
       Inr (book1\<lparr>total_votes := 1, average_rating := 5 / 2\<rparr>)"
    by (simp add: rateBook_def no_faults_def findBookById_def updateBook_def
          findBookWithRelations_def fresh_world_def single_def issue_def Let_def lookup_def book1_def)
  ultimately show ?thesis using half_not_int by simp
qed

lemma findBookById_missing:
  "i \<notin> b_id ` set (books (db w)) \<Longrightarrow> \<exists>e. findBookById flt (Some i) w = (Inl e, issue FindBook w)"
proof -
  assume "i \<notin> b_id ` set (books (db w))"
  then have "filter (\<lambda>b. b_id b = i) (books (db w)) = []"
    by (auto simp: filter_empty_conv)
  then show ?thesis by (simp add: findBookById_def single_def)
qed

lemma findBookById_NaN: "\<exists>e. findBookById flt None w = (Inl e, issue FindBook w)"
  by (simp add: findBookById_def)

lemma addComment_no_book:
  "findBookById flt bookId w = (Inl e, issue FindBook w) \<Longrightarrow>
   addComment flt orderBy bookId text now w = (NotFound, issue FindBook w)"
  by (simp add: addComment_def)

lemma rateBook_no_book:
  "findBookById flt bookId w = (Inl e, issue FindBook w) \<Longrightarrow> 1 \<le> r \<Longrightarrow> r \<le> 5 \<Longrightarrow>
   rateBook flt bookId r w = (NotFound, issue FindBook w)"
  by (simp add: rateBook_def)

lemma rateBook_no_book_db:
  "findBookById flt bookId w = (Inl e, issue FindBook w) \<Longrightarrow>
   db (snd (rateBook flt bookId r w)) = db w"
  by (simp add: rateBook_def)

text \<open>
  Claim C5. When no book has the id, \<open>addComment\<close> answers 404, and so does \<open>rateBook\<close> for a
  rating in the range (the range check comes before the lookup; an out-of-range rating is
  answered 400 for any id). Neither changes a table, whatever the rating.
\<close>

theorem missing_book_not_found:
  assumes "i \<notin> b_id ` set (books (db w))"
  shows "fst (addComment flt orderBy (Some i) text now w) = NotFound
       \<and> db (snd (addComment flt orderBy (Some i) text now w)) = db w
       \<and> (1 \<le> r \<and> r \<le> 5 \<longrightarrow> fst (rateBook flt (Some i) r w) = NotFound)
       \<and> db (snd (rateBook flt (Some i) r w)) = db w"
proof -
  from findBookById_missing [OF assms]
  obtain e where e: "findBookById flt (Some i) w = (Inl e, issue FindBook w)" by blast
  show ?thesis
    using addComment_no_book [OF e] rateBook_no_book [OF e] rateBook_no_book_db [OF e]
    by simp
qed

theorem missing_book_not_found_witness:
  "fst (addComment no_faults by_created_at (Some 7) ''hello'' 200 fresh_world) = NotFound
   \<and> db (snd (addComment no_faults by_created_at (Some 7) ''hello'' 200 fresh_world)) = db fresh_world
   \<and> fst (rateBook no_faults (Some 7) 3 fresh_world) = NotFound
   \<and> db (snd (rateBook no_faults (Some 7) 3 fresh_world)) = db fresh_world"
proof -
  have h: "7 \<notin> b_id ` set (books (db fresh_world))"
    by (simp add: fresh_world_def book1_def)
  show ?thesis
    using missing_book_not_found [OF h, of no_faults by_created_at "''hello''" 200 3] by simp
qed

text \<open>
  Claim C10. When the id does not parse (\<^verbatim>\<open>NaN\<close>), the lookup fails and \<open>addComment\<close>
  answers 404, and so does \<open>rateBook\<close> for a rating in the range: the id gets no
  invalid-argument answer of its own. Neither changes a table, whatever the rating.
\<close>

theorem unparsed_id_not_found:
  "fst (addComment flt orderBy None text now w) = NotFound
   \<and> db (snd (addComment flt orderBy None text now w)) = db w
   \<and> (1 \<le> r \<and> r \<le> 5 \<longrightarrow> fst (rateBook flt None r w) = NotFound)
   \<and> db (snd (rateBook flt None r w)) = db w"
proof -
  from findBookById_NaN
  obtain e where e: "findBookById flt None w = (Inl e, issue FindBook w)" by blast
  show ?thesis
    using addComment_no_book [OF e] rateBook_no_book [OF e] rateBook_no_book_db [OF e]
    by simp
qed

theorem unparsed_id_not_found_witness:
  "fst (addComment no_faults by_created_at None ''hello'' 200 fresh_world) = NotFound
   \<and> db (snd (addComment no_faults by_created_at None ''hello'' 200 fresh_world)) = db fresh_world
   \<and> fst (rateBook no_faults None 3 fresh_world) = NotFound
   \<and> db (snd (rateBook no_faults None 3 fresh_world)) = db fresh_world"
  using unparsed_id_not_found [of no_faults by_created_at "''hello''" 200 fresh_world 3] by simp

text \<open>
  Claim C9. \<open>rateBook\<close> leaves the comments, the categories and the comment sequence as they
  were; a book with another id is unchanged, and in the rated book every field but
  \<open>total_votes\<close> and \<open>average_rating\<close> is unchanged.
\<close>

theorem rateBook_frame:
  "comments (db (snd (rateBook flt bookId r w))) = comments (db w)
   \<and> categories (db (snd (rateBook flt bookId r w))) = categories (db w)
   \<and> comment_seq (db (snd (rateBook flt bookId r w))) = comment_seq (db w)
   \<and> list_all2
       (\<lambda>x x'. (Some (b_id x) \<noteq> bookId \<longrightarrow> x' = x)
              \<and> b_id x' = b_id x \<and> title x' = title x \<and> author x' = author x
              \<and> image_url x' = image_url x \<and> description x' = description x
              \<and> b_created_at x' = b_created_at x \<and> pages x' = pages x \<and> year x' = year x
              \<and> category_id x' = category_id x \<and> age_range x' = age_range x)
       (books (db w)) (books (db (snd (rateBook flt bookId r w))))"
  by (auto simp: rateBook_def Let_def updateBook_def findBookWithRelations_def issue_def
        findBookById_def list_all2_map2 list_all2_same
      split: prod.splits sum.splits if_splits option.splits)

theorem rateBook_frame_witness:
  "comments (db (snd (rateBook no_faults (Some 1) 4 shelf_world))) = comments (db shelf_world)
   \<and> books (db (snd (rateBook no_faults (Some 1) 4 shelf_world))) ! 1 = book2
   \<and> title (books (db (snd (rateBook no_faults (Some 1) 4 shelf_world))) ! 0) = ''Emma''"
proof -
  have bs: "books (db shelf_world) = [book1, book2]"
    by (simp add: shelf_world_def)
  have ids: "b_id book1 = 1" "b_id book2 = 2" "title book1 = ''Emma''"
    by (simp_all add: book1_def book2_def)
  show ?thesis
    using rateBook_frame [of no_faults "Some 1" 4 shelf_world] ids
    by (auto simp: bs list_all2_Cons1)
qed

subsection \<open>The running average in binary64\<close>

text \<open>
  The range check and the frame of \<open>rateBook\<close> do not depend on the arithmetic: they hold of
  \<open>rateBook64\<close> word for word.
\<close>

lemma rateBook64_rejects_out_of_range:
  "r < 1 \<or> r > 5 \<Longrightarrow> rateBook64 flt bookId r w = (BadRequest, w)"
  by (simp add: rateBook64_def)

lemma rateBook64_frame:
  "comments (db (snd (rateBook64 flt bookId r w))) = comments (db w)
   \<and> categories (db (snd (rateBook64 flt bookId r w))) = categories (db w)
   \<and> comment_seq (db (snd (rateBook64 flt bookId r w))) = comment_seq (db w)
   \<and> list_all2
       (\<lambda>x x'. (Some (b_id x) \<noteq> bookId \<longrightarrow> x' = x)
              \<and> b_id x' = b_id x \<and> title x' = title x \<and> author x' = author x
              \<and> image_url x' = image_url x \<and> description x' = description x
              \<and> b_created_at x' = b_created_at x \<and> pages x' = pages x \<and> year x' = year x
              \<and> category_id x' = category_id x \<and> age_range x' = age_range x)
       (books (db w)) (books (db (snd (rateBook64 flt bookId r w))))"
  by (auto simp: rateBook64_def Let_def updateBook_def findBookWithRelations_def issue_def
        findBookById_def list_all2_map2 list_all2_same
      split: prod.splits sum.splits if_splits option.splits)

lemma rateBook64_db:
  assumes "lookup i w = Inr b" "\<not> flt FindBook" "\<not> flt Update" "1 \<le> r" "r \<le> 5"
  shows "db (snd (rateBook64 flt (Some i) r w)) =
     (db w)\<lparr>books := map (\<lambda>x. if b_id x = i
                 then x\<lparr>total_votes := total_votes b + 1,
                        average_rating :=
                          fl (fl (fl (average_rating b * real (total_votes b)) + r)
                                / real (total_votes b + 1))\<rparr>
                 else x) (books (db w))\<rparr>"
  using assms
  by (simp add: rateBook64_def findBookById_ok updateBook_def findBookWithRelations_def Let_def
        split: prod.splits sum.splits)

lemma rateBook64_lookup:
  assumes "lookup i w = Inr b" "\<not> flt FindBook" "\<not> flt Update" "1 \<le> r" "r \<le> 5"
  shows "lookup i (snd (rateBook64 flt (Some i) r w)) =
     Inr (b\<lparr>total_votes := total_votes b + 1,
            average_rating :=
              fl (fl (fl (average_rating b * real (total_votes b)) + r)
                    / real (total_votes b + 1))\<rparr>)"
proof -
  from assms(1) have "filter (\<lambda>x. b_id x = i) (books (db w)) = [b]"
    by (simp add: lookup_def single_Inr)
  then show ?thesis
    unfolding lookup_def rateBook64_db [OF assms]
    by (simp add: filter_map_same_id single_def)
qed

lemma rateAll64_lookup:
  assumes "\<not> flt FindBook" "\<not> flt Update"
  shows "lookup i w = Inr b \<Longrightarrow> \<forall>r\<in>set rs. 1 \<le> r \<and> r \<le> 5 \<Longrightarrow>
    lookup i (rateAll64 flt (Some i) rs w) =
      Inr (b\<lparr>total_votes := total_votes b + length rs,
             average_rating := running64 (total_votes b) (average_rating b) rs\<rparr>)"
proof (induction rs arbitrary: w b)
  case Nil
  then show ?case by simp
next
  case (Cons r rs)
  let ?b1 = "b\<lparr>total_votes := total_votes b + 1,
            average_rating :=
              fl (fl (fl (average_rating b * real (total_votes b)) + r)
                    / real (total_votes b + 1))\<rparr>"
  from Cons.prems have r: "1 \<le> r" "r \<le> 5" and rs: "\<forall>r\<in>set rs. 1 \<le> r \<and> r \<le> 5"
    by simp_all
  have step: "lookup i (snd (rateBook64 flt (Some i) r w)) = Inr ?b1"
    by (rule rateBook64_lookup [OF Cons.prems(1) assms r])
  show ?case
    using Cons.IH [OF step rs] by simp
qed

lemma rateBook_writes_both:
  "list_all2
     (\<lambda>x x'. x' = x \<or>
              x' = x\<lparr>total_votes := total_votes x + 1,
                     average_rating :=
                       (average_rating x * real (total_votes x) + r) / real (total_votes x + 1)\<rparr>)
     (books (db w)) (books (db (snd (rateBook flt j r w))))"
proof (cases "fst (findBookById flt j w)")
  case (Inl e)
  then show ?thesis
    by (auto simp: rateBook_def list_all2_same split: prod.splits simp: findBookById_def issue_def)
next
  case (Inr bk)
  then obtain k where j: "j = Some k" and f: "filter (\<lambda>x. b_id x = k) (books (db w)) = [bk]"
    by (auto simp: findBookById_def single_Inr split: if_splits option.splits)
  have same: "x = bk" if "x \<in> set (books (db w))" "b_id x = k" for x
  proof -
    from that have "x \<in> set (filter (\<lambda>x. b_id x = k) (books (db w)))" by simp
    then show ?thesis by (simp add: f)
  qed
  show ?thesis
    using Inr j same
    by (auto simp: rateBook_def Let_def updateBook_def findBookWithRelations_def issue_def
          findBookById_def list_all2_map2 list_all2_same
        split: prod.splits sum.splits if_splits)
qed

lemma rateBook64_writes_both:
  "list_all2
     (\<lambda>x x'. x' = x \<or>
              x' = x\<lparr>total_votes := total_votes x + 1,
                     average_rating :=
                       fl (fl (fl (average_rating x * real (total_votes x)) + r)
                             / real (total_votes x + 1))\<rparr>)
     (books (db w)) (books (db (snd (rateBook64 flt j r w))))"
proof (cases "fst (findBookById flt j w)")
  case (Inl e)
  then show ?thesis
    by (auto simp: rateBook64_def list_all2_same split: prod.splits simp: findBookById_def issue_def)
next
  case (Inr bk)
  then obtain k where j: "j = Some k" and f: "filter (\<lambda>x. b_id x = k) (books (db w)) = [bk]"
    by (auto simp: findBookById_def single_Inr split: if_splits option.splits)
  have same: "x = bk" if "x \<in> set (books (db w))" "b_id x = k" for x
  proof -
    from that have "x \<in> set (filter (\<lambda>x. b_id x = k) (books (db w)))" by simp
    then show ?thesis by (simp add: f)
  qed
  show ?thesis
    using Inr j same
    by (auto simp: rateBook64_def Let_def updateBook_def findBookWithRelations_def issue_def
          findBookById_def list_all2_map2 list_all2_same
        split: prod.splits sum.splits if_splits)
qed

text \<open>
  Claim C6, as amended. After any sequence of accepted ratings on a book that starts with no
  vote and the average 0, \<open>total_votes\<close> is the number of ratings and \<open>average_rating\<close> is
  the running average of line 310 over them, each operation rounded to binary64. Evaluated
  without rounding, the same updates give exactly the arithmetic mean of the ratings.
  Whatever fails, one call leaves every row as it was or writes both fields of it at once.
\<close>

theorem rating_running_mean:
  assumes "lookup i w = Inr b" "total_votes b = 0" "average_rating b = 0"
    and "\<not> flt FindBook" "\<not> flt Update" "\<forall>r\<in>set rs. 1 \<le> r \<and> r \<le> 5"
  shows "lookup i (rateAll64 flt (Some i) rs w) =
           Inr (b\<lparr>total_votes := length rs, average_rating := running64 0 0 rs\<rparr>)
       \<and> lookup i (rateAll flt (Some i) rs w) =
           Inr (b\<lparr>total_votes := length rs,
                  average_rating := (if rs = [] then 0 else sum_list rs / real (length rs))\<rparr>)
       \<and> list_all2
           (\<lambda>x x'. x' = x \<or>
                    x' = x\<lparr>total_votes := total_votes x + 1,
                           average_rating :=
                             fl (fl (fl (average_rating x * real (total_votes x)) + r')
                                   / real (total_votes x + 1))\<rparr>)
           (books (db w')) (books (db (snd (rateBook64 flt' j r' w'))))"
proof -
  have A: "lookup i (rateAll64 flt (Some i) rs w) =
           Inr (b\<lparr>total_votes := length rs, average_rating := running64 0 0 rs\<rparr>)"
    using rateAll64_lookup [OF assms(4,5) assms(1) assms(6)] assms(2,3) by simp
  have B: "lookup i (rateAll flt (Some i) rs w) =
           Inr (b\<lparr>total_votes := length rs,
                  average_rating := (if rs = [] then 0 else sum_list rs / real (length rs))\<rparr>)"
    using rateAll_lookup [OF assms(4,5) assms(1) assms(6)] assms(2,3) by simp
  show ?thesis using A B rateBook64_writes_both [of r' w' flt' j] by simp
qed

lemma running64_example: "running64 0 0 [1, 3, 5, 5, 5, 5, 5, 1] = 15 / 4 + 1 / 2 ^ 51"
  by code_simp

lemma running64_exact_examples: "running64 0 0 [4, 2] = 3" "running64 0 0 [5] = 5"
  by code_simp+

lemma fl_examples: "fl 3 = 3" "fl (15 / 4) = 15 / 4" "fl (1 / 3) = 6004799503160661 / 2 ^ 54"
  by code_simp+

lemma running64_small: "running64 0 0 [4, 2, 3] = 3"
  by code_simp

theorem rating_running_mean_witness:
  "lookup 1 (rateAll64 no_faults (Some 1) [4, 2, 3] fresh_world) =
     Inr (book1\<lparr>total_votes := 3, average_rating := 3\<rparr>)
   \<and> lookup 1 (rateAll no_faults (Some 1) [4, 2, 3] fresh_world) =
     Inr (book1\<lparr>total_votes := 3, average_rating := 3\<rparr>)"
proof -
  have b: "total_votes book1 = 0" "average_rating book1 = 0"
    by (simp_all add: book1_def)
  have nf: "\<not> no_faults FindBook" "\<not> no_faults Update"
    by (simp_all add: no_faults_def)
  have rs: "\<forall>r\<in>set [4, 2, 3 :: real]. 1 \<le> r \<and> r \<le> 5" by simp
  have len: "length [4, 2, 3 :: real] = 3" by simp
  note th = rating_running_mean [OF fresh_lookup b nf rs]
  from th [THEN conjunct1]
  have A: "lookup 1 (rateAll64 no_faults (Some 1) [4, 2, 3] fresh_world) =
     Inr (book1\<lparr>total_votes := 3, average_rating := 3\<rparr>)"
    by (simp only: running64_small len)
  from th [THEN conjunct2, THEN conjunct1]
  have B: "lookup 1 (rateAll no_faults (Some 1) [4, 2, 3] fresh_world) =
     Inr (book1\<lparr>total_votes := 3, average_rating := 3\<rparr>)"
    by simp
  from A B show ?thesis by (rule conjI)
qed

text \<open>
  Claim C6 as stated fails: after the ratings 1, 3, 5, 5, 5, 5, 5, 1 the stored average is
  \<open>3.75 + 2^-51\<close> (printed 3.7500000000000004), and the arithmetic mean is 3.75.
\<close>

theorem binary64_mean_differs:
  "lookup 1 (rateAll64 no_faults (Some 1) [1, 3, 5, 5, 5, 5, 5, 1] fresh_world) =
     Inr (book1\<lparr>total_votes := 8, average_rating := 15 / 4 + 1 / 2 ^ 51\<rparr>)
   \<and> sum_list [1, 3, 5, 5, 5, 5, 5, 1] / real (length [1, 3, 5, 5, 5, 5, 5, 1 :: real]) = 15 / 4
   \<and> (15 / 4 + 1 / 2 ^ 51 :: real) \<noteq> 15 / 4"
proof -
  have b: "total_votes book1 = 0" "average_rating book1 = 0"
    by (simp_all add: book1_def)
  have nf: "\<not> no_faults FindBook" "\<not> no_faults Update"
    by (simp_all add: no_faults_def)
  have rs: "\<forall>r\<in>set [1, 3, 5, 5, 5, 5, 5, 1 :: real]. 1 \<le> r \<and> r \<le> 5" by simp
  have len: "0 + length [1, 3, 5, 5, 5, 5, 5, 1 :: real] = 8" by simp
  from rateAll64_lookup [OF nf fresh_lookup rs]
  have A: "lookup 1 (rateAll64 no_faults (Some 1) [1, 3, 5, 5, 5, 5, 5, 1] fresh_world) =
     Inr (book1\<lparr>total_votes := 8, average_rating := 15 / 4 + 1 / 2 ^ 51\<rparr>)"
    by (simp only: b running64_example len)
  have B: "sum_list [1, 3, 5, 5, 5, 5, 5, 1] / real (length [1, 3, 5, 5, 5, 5, 5, 1 :: real]) = 15 / 4"
    by simp
  have C: "(15 / 4 + 1 / 2 ^ 51 :: real) \<noteq> 15 / 4" by simp
  from A B C show ?thesis by simp
qed

subsection \<open>Comments\<close>

lemma ascending_length: "ascending orderBy \<Longrightarrow> length (orderBy xs) = length xs"
  by (metis ascending_def mset_eq_length)

lemma ascending_set: "ascending orderBy \<Longrightarrow> set (orderBy xs) = set xs"
  by (metis ascending_def mset_eq_setD)

lemma ascending_head:
  assumes "ascending orderBy" "xs \<noteq> []"
  shows "orderBy xs ! 0 \<in> set xs"
    and "\<forall>c\<in>set xs. created_at (orderBy xs ! 0) \<le> created_at c"
proof -
  from assms have "orderBy xs \<noteq> []"
    using ascending_length [OF assms(1), of xs] by auto
  then obtain y ys where o: "orderBy xs = y # ys" by (cases "orderBy xs") auto
  from assms(1) have s: "sorted (map created_at (orderBy xs))"
    by (simp add: ascending_def)
  have set: "set xs = set (y # ys)"
    using ascending_set [OF assms(1), of xs] o by simp
  show "orderBy xs ! 0 \<in> set xs" by (simp add: o set)
  show "\<forall>c\<in>set xs. created_at (orderBy xs ! 0) \<le> created_at c"
    using s unfolding o set by auto
qed

lemma ascending_by_created_at: "ascending by_created_at"
  by (simp add: ascending_def by_created_at_def)

lemma ascending_ties_newest_first: "ascending ties_newest_first"
  by (simp add: ascending_def ties_newest_first_def)

lemma remove_by_key:
  "distinct (map g (pre @ m # post)) \<Longrightarrow>
   filter (\<lambda>c. g c \<noteq> g m) (pre @ m # post) = pre @ post"
proof -
  assume d: "distinct (map g (pre @ m # post))"
  from d have "g m \<notin> g ` set pre" "g m \<notin> g ` set post"
    by auto
  then have "\<forall>c\<in>set pre. g c \<noteq> g m" "\<forall>c\<in>set post. g c \<noteq> g m"
    by (metis imageI)+
  then have "filter (\<lambda>c. g c \<noteq> g m) pre = pre" "filter (\<lambda>c. g c \<noteq> g m) post = post"
    by (simp_all add: filter_id_conv)
  then show ?thesis by simp
qed

lemma remove_by_key_mset:
  assumes "distinct (map g ys)" "m \<in> set ys"
  shows "mset (filter (\<lambda>c. g c \<noteq> g m) ys) + {#m#} = mset ys"
proof -
  from assms(2) obtain pre post where ys: "ys = pre @ m # post"
    by (meson split_list)
  from assms(1) have "filter (\<lambda>c. g c \<noteq> g m) (pre @ m # post) = pre @ post"
    unfolding ys by (rule remove_by_key)
  then show ?thesis by (simp add: ys)
qed

lemma same_key_same_row:
  "distinct (map g ys) \<Longrightarrow> m \<in> set ys \<Longrightarrow> c \<in> set ys \<Longrightarrow> g c = g m \<Longrightarrow> c = m"
  by (meson distinct_map inj_onD)

lemma commentsOf_issue [simp]: "commentsOf i (issue c w) = commentsOf i w"
  by (simp add: commentsOf_def issue_def)

lemma filter_swap: "filter P (filter Q xs) = filter Q (filter P xs)"
  by (simp add: conj_commute)

lemma addComment_db:
  assumes "lookup i w = Inr b" "\<not> flt FindBook" "\<not> flt Insert" "\<not> flt ListComments"
  shows "db (snd (addComment flt orderBy (Some i) text now w)) =
     (db w)\<lparr>comments :=
        (if 20 < length (orderBy (commentsOf i w @
                 [\<lparr>c_id = comment_seq (db w), book_id = i, comment_text = text, created_at = now\<rparr>]))
            \<and> \<not> flt Delete
         then filter (\<lambda>c. c_id c \<noteq> c_id (orderBy (commentsOf i w @
                 [\<lparr>c_id = comment_seq (db w), book_id = i, comment_text = text, created_at = now\<rparr>]) ! 0))
                (comments (db w) @
                 [\<lparr>c_id = comment_seq (db w), book_id = i, comment_text = text, created_at = now\<rparr>])
         else comments (db w) @
                 [\<lparr>c_id = comment_seq (db w), book_id = i, comment_text = text, created_at = now\<rparr>]),
       comment_seq := comment_seq (db w) + 1\<rparr>"
  using assms
  by (auto simp: addComment_def findBookById_ok insertComment_def listCommentsByBook_def
        deleteComment_def findBookWithRelations_def Let_def issue_def commentsOf_def
      split: prod.splits sum.splits)

text \<open>The same under an ascending order: what is evicted is an oldest row of the book.\<close>

lemma addComment_comments:
  assumes "lookup i w = Inr b" "\<not> flt FindBook" "\<not> flt Insert" "\<not> flt ListComments"
    and "ascending orderBy"
  shows "comments (db (snd (addComment flt orderBy (Some i) text now w))) =
        (if 20 \<le> length (commentsOf i w) \<and> \<not> flt Delete
         then filter (\<lambda>c. c_id c \<noteq> c_id (orderBy (commentsOf i w @
                 [\<lparr>c_id = comment_seq (db w), book_id = i, comment_text = text, created_at = now\<rparr>]) ! 0))
                (comments (db w) @
                 [\<lparr>c_id = comment_seq (db w), book_id = i, comment_text = text, created_at = now\<rparr>])
         else comments (db w) @
                 [\<lparr>c_id = comment_seq (db w), book_id = i, comment_text = text, created_at = now\<rparr>])"
    and "comment_seq (db (snd (addComment flt orderBy (Some i) text now w))) = comment_seq (db w) + 1"
    and "books (db (snd (addComment flt orderBy (Some i) text now w))) = books (db w)"
proof -
  have "(20 < length (orderBy (commentsOf i w @
           [\<lparr>c_id = comment_seq (db w), book_id = i, comment_text = text, created_at = now\<rparr>])))
        = (20 \<le> length (commentsOf i w))"
    by (simp add: ascending_length [OF assms(5)] less_Suc_eq_le)
  then show "comments (db (snd (addComment flt orderBy (Some i) text now w))) =
        (if 20 \<le> length (commentsOf i w) \<and> \<not> flt Delete
         then filter (\<lambda>c. c_id c \<noteq> c_id (orderBy (commentsOf i w @
                 [\<lparr>c_id = comment_seq (db w), book_id = i, comment_text = text, created_at = now\<rparr>]) ! 0))
                (comments (db w) @
                 [\<lparr>c_id = comment_seq (db w), book_id = i, comment_text = text, created_at = now\<rparr>])
         else comments (db w) @
                 [\<lparr>c_id = comment_seq (db w), book_id = i, comment_text = text, created_at = now\<rparr>])"
    by (simp add: addComment_db [OF assms(1-4)])
  show "comment_seq (db (snd (addComment flt orderBy (Some i) text now w))) = comment_seq (db w) + 1"
    by (simp add: addComment_db [OF assms(1-4)])
  show "books (db (snd (addComment flt orderBy (Some i) text now w))) = books (db w)"
    by (simp add: addComment_db [OF assms(1-4)])
qed

lemma wf_fresh_id:
  assumes "wf_comments (db w)"
  shows "distinct (map c_id (comments (db w) @
           [\<lparr>c_id = comment_seq (db w), book_id = i, comment_text = text, created_at = now\<rparr>]))"
proof -
  from assms have d: "distinct (map c_id (comments (db w)))"
    and lt: "\<forall>c\<in>set (comments (db w)). c_id c < comment_seq (db w)"
    by (simp_all add: wf_comments_def list_all_iff)
  from lt have "comment_seq (db w) \<notin> c_id ` set (comments (db w))" by auto
  with d show ?thesis by simp
qed

lemma old_ids_below_seq:
  "wf_comments (db w) \<Longrightarrow> c \<in> set (commentsOf i w) \<Longrightarrow> c_id c < comment_seq (db w)"
  by (simp add: wf_comments_def list_all_iff commentsOf_def)

lemma new_row_is_new:
  "wf_comments (db w) \<Longrightarrow>
   \<lparr>c_id = comment_seq (db w), book_id = i, comment_text = text, created_at = now\<rparr>
     \<notin> set (comments (db w))"
  by (auto simp: wf_comments_def list_all_iff)

text \<open>
  Claim C1. The store calls succeed, the order is ascending, and the book has at most 20
  comments. Then \<open>addComment\<close> leaves it with \<open>min (count + 1) 20\<close> comments, never more
  than 20, and inserts exactly one row: the sequence advances by one and the row is new.
  Below the cap the table is the old one with that row appended. At the cap the table is the
  old one with that row added and one row of the book taken out, a row as old as any. The
  new row itself is in the table after the call when the book is below the cap or has a
  comment older than it.
\<close>

theorem addComment_count:
  assumes "lookup i w = Inr b" "wf_comments (db w)"
    and "\<not> flt FindBook" "\<not> flt Insert" "\<not> flt ListComments" "\<not> flt Delete"
    and "ascending orderBy"
    and "length (commentsOf i w) \<le> 20"
  shows "length (commentsOf i (snd (addComment flt orderBy (Some i) text now w))) =
           min (length (commentsOf i w) + 1) 20
       \<and> length (commentsOf i (snd (addComment flt orderBy (Some i) text now w))) \<le> 20
       \<and> comment_seq (db (snd (addComment flt orderBy (Some i) text now w))) =
           comment_seq (db w) + 1
       \<and> \<lparr>c_id = comment_seq (db w), book_id = i, comment_text = text, created_at = now\<rparr>
           \<notin> set (comments (db w))
       \<and> (length (commentsOf i w) < 20 \<longrightarrow>
            comments (db (snd (addComment flt orderBy (Some i) text now w))) =
              comments (db w) @
                [\<lparr>c_id = comment_seq (db w), book_id = i, comment_text = text, created_at = now\<rparr>])
       \<and> (length (commentsOf i w) = 20 \<longrightarrow>
            (\<exists>victim. book_id victim = i
               \<and> (\<forall>c\<in>set (commentsOf i w). created_at victim \<le> created_at c)
               \<and> created_at victim \<le> now
               \<and> mset (comments (db (snd (addComment flt orderBy (Some i) text now w))))
                   + {#victim#} =
                 mset (comments (db w))
                   + {#\<lparr>c_id = comment_seq (db w), book_id = i, comment_text = text,
                         created_at = now\<rparr>#}))
       \<and> (length (commentsOf i w) < 20 \<or> (\<exists>c\<in>set (commentsOf i w). created_at c < now) \<longrightarrow>
            \<lparr>c_id = comment_seq (db w), book_id = i, comment_text = text, created_at = now\<rparr>
              \<in> set (comments (db (snd (addComment flt orderBy (Some i) text now w)))))"
proof -
  let ?new = "\<lparr>c_id = comment_seq (db w), book_id = i, comment_text = text, created_at = now\<rparr>"
  let ?w' = "snd (addComment flt orderBy (Some i) text now w)"
  let ?xs = "commentsOf i w"
  let ?all = "comments (db w) @ [?new]"
  let ?m = "orderBy (?xs @ [?new]) ! 0"
  note eff = addComment_comments [OF assms(1,3,4,5,7), of "text" now]
  have seq: "comment_seq (db ?w') = comment_seq (db w) + 1" by (rule eff(2))
  have fresh: "?new \<notin> set (comments (db w))" by (rule new_row_is_new [OF assms(2)])
  show ?thesis
  proof (cases "length ?xs < 20")
    case True
    then have c: "comments (db ?w') = ?all"
      by (simp add: eff(1))
    then have "commentsOf i ?w' = ?xs @ [?new]"
      by (simp add: commentsOf_def)
    with c True seq fresh show ?thesis by simp
  next
    case False
    with assms(8) have len: "length ?xs = 20" by simp
    then have c: "comments (db ?w') = filter (\<lambda>c. c_id c \<noteq> c_id ?m) ?all"
      using assms(6) by (simp add: eff(1))
    have ne: "?xs @ [?new] \<noteq> []" by simp
    have m_in: "?m \<in> set (?xs @ [?new])"
      and m_min: "\<forall>c\<in>set (?xs @ [?new]). created_at ?m \<le> created_at c"
      by (rule ascending_head [OF assms(7) ne])+
    have dall: "distinct (map c_id ?all)"
      by (rule wf_fresh_id [OF assms(2)])
    have dxs: "distinct (map c_id (?xs @ [?new]))"
      using distinct_map_filter [OF dall, of "\<lambda>c. book_id c = i"]
      by (simp add: commentsOf_def)
    have k: "commentsOf i ?w' = filter (\<lambda>c. c_id c \<noteq> c_id ?m) (?xs @ [?new])"
      unfolding commentsOf_def c
      by (subst filter_swap) (simp add: commentsOf_def)
    have "mset (commentsOf i ?w') + {#?m#} = mset (?xs @ [?new])"
      unfolding k by (rule remove_by_key_mset [OF dxs m_in])
    then have "size (mset (commentsOf i ?w') + {#?m#}) = size (mset (?xs @ [?new]))"
      by simp
    then have n: "length (commentsOf i ?w') = 20"
      using len by simp
    have m_all: "?m \<in> set ?all"
      using m_in by (auto simp: commentsOf_def)
    have bal: "mset (comments (db ?w')) + {#?m#} = mset (comments (db w)) + {#?new#}"
      unfolding c using remove_by_key_mset [OF dall m_all] by simp
    have m_book: "book_id ?m = i"
      using m_in by (auto simp: commentsOf_def)
    have m_old: "\<forall>c\<in>set ?xs. created_at ?m \<le> created_at c" and m_now: "created_at ?m \<le> now"
      using m_min by simp_all
    have stays: "?new \<in> set (comments (db ?w'))" if "\<exists>c\<in>set ?xs. created_at c < now"
    proof -
      from that m_old have "created_at ?m < now" by fastforce
      then have "?m \<noteq> ?new" by auto
      with m_in have "?m \<in> set ?xs" by simp
      then have "c_id ?m < comment_seq (db w)"
        by (rule old_ids_below_seq [OF assms(2)])
      then show ?thesis unfolding c by simp
    qed
    have ex: "\<exists>victim. book_id victim = i
               \<and> (\<forall>c\<in>set ?xs. created_at victim \<le> created_at c)
               \<and> created_at victim \<le> now
               \<and> mset (comments (db ?w')) + {#victim#} = mset (comments (db w)) + {#?new#}"
      using m_book m_old m_now bal by blast
    from n len seq fresh ex stays show ?thesis by simp
  qed
qed

text \<open>
  Claim C2, as amended. A book holds exactly 20 comments, one of them older than the new one,
  the store calls succeed and the order is ascending. Then \<open>addComment\<close> leaves exactly 20
  comments: one old comment is gone, all the others are kept in their order, and the new one
  is there. The comment that is gone has the earliest timestamp; when the timestamps of the
  book differ from each other, every comment that is left is younger than it. The comments
  of other books are untouched. Which of several comments of the earliest timestamp goes is
  the store's choice.
\<close>

theorem addComment_evicts_an_oldest:
  assumes "lookup i w = Inr b" "wf_comments (db w)"
    and "\<not> flt FindBook" "\<not> flt Insert" "\<not> flt ListComments" "\<not> flt Delete"
    and "ascending orderBy"
    and "length (commentsOf i w) = 20"
    and "\<exists>c\<in>set (commentsOf i w). created_at c < now"
  shows "\<exists>pre old post.
      commentsOf i w = pre @ old # post
    \<and> (\<forall>c\<in>set (commentsOf i w). created_at old \<le> created_at c)
    \<and> commentsOf i (snd (addComment flt orderBy (Some i) text now w)) =
        pre @ post @
          [\<lparr>c_id = comment_seq (db w), book_id = i, comment_text = text, created_at = now\<rparr>]
    \<and> length (commentsOf i (snd (addComment flt orderBy (Some i) text now w))) = 20
    \<and> old \<notin> set (comments (db (snd (addComment flt orderBy (Some i) text now w))))
    \<and> \<lparr>c_id = comment_seq (db w), book_id = i, comment_text = text, created_at = now\<rparr>
        \<in> set (comments (db (snd (addComment flt orderBy (Some i) text now w))))
    \<and> filter (\<lambda>c. book_id c \<noteq> i)
          (comments (db (snd (addComment flt orderBy (Some i) text now w)))) =
        filter (\<lambda>c. book_id c \<noteq> i) (comments (db w))
    \<and> (inj_on created_at (set (commentsOf i w)) \<longrightarrow>
          (\<forall>c\<in>set (pre @ post). created_at old < created_at c))"
proof -
  let ?new = "\<lparr>c_id = comment_seq (db w), book_id = i, comment_text = text, created_at = now\<rparr>"
  let ?w' = "snd (addComment flt orderBy (Some i) text now w)"
  let ?xs = "commentsOf i w"
  let ?all = "comments (db w) @ [?new]"
  define m where "m = orderBy (?xs @ [?new]) ! 0"
  have c: "comments (db ?w') = filter (\<lambda>c. c_id c \<noteq> c_id m) ?all"
    using assms(6,8) addComment_comments(1) [OF assms(1,3,4,5,7), of "text" now]
    by (simp add: m_def)
  have ne: "?xs @ [?new] \<noteq> []" by simp
  have m_in: "m \<in> set (?xs @ [?new])"
    and m_min: "\<forall>c\<in>set (?xs @ [?new]). created_at m \<le> created_at c"
    unfolding m_def by (rule ascending_head [OF assms(7) ne])+
  from m_min have m_old: "\<forall>c\<in>set ?xs. created_at m \<le> created_at c" by simp
  with assms(9) have "created_at m < now" by fastforce
  then have "m \<noteq> ?new" by auto
  with m_in have m_xs: "m \<in> set ?xs" by simp
  then obtain pre post where xs: "?xs = pre @ m # post"
    by (meson split_list)
  have dall: "distinct (map c_id ?all)"
    by (rule wf_fresh_id [OF assms(2)])
  have "distinct (map c_id (?xs @ [?new]))"
    using distinct_map_filter [OF dall, of "\<lambda>c. book_id c = i"]
    by (simp add: commentsOf_def)
  then have d: "distinct (map c_id (pre @ m # (post @ [?new])))"
    by (subst (asm) xs) simp
  have "commentsOf i ?w' = filter (\<lambda>c. c_id c \<noteq> c_id m) (?xs @ [?new])"
    unfolding commentsOf_def c
    by (subst filter_swap) (simp add: commentsOf_def)
  also have "?xs @ [?new] = pre @ m # (post @ [?new])"
    by (subst xs) simp
  also have "filter (\<lambda>c. c_id c \<noteq> c_id m) (pre @ m # (post @ [?new])) = pre @ post @ [?new]"
    by (rule remove_by_key [OF d])
  finally have k: "commentsOf i ?w' = pre @ post @ [?new]" .
  have "length ?xs = length pre + length post + 1"
    by (subst xs) simp
  with assms(8) k have len: "length (commentsOf i ?w') = 20" by simp
  have gone: "m \<notin> set (comments (db ?w'))"
    unfolding c set_filter by blast
  have "c_id m < comment_seq (db w)"
    using m_xs by (rule old_ids_below_seq [OF assms(2)])
  then have here: "?new \<in> set (comments (db ?w'))"
    unfolding c by simp
  have m_all: "m \<in> set (comments (db w))" "book_id m = i"
    using m_xs by (simp_all add: commentsOf_def)
  have dold: "distinct (map c_id (comments (db w)))"
    using assms(2) by (simp add: wf_comments_def)
  have keep: "c_id x \<noteq> c_id m" if "x \<in> set (comments (db w))" "book_id x \<noteq> i" for x
    using same_key_same_row [OF dold m_all(1) that(1)] m_all(2) that(2) by blast
  have "filter (\<lambda>c. book_id c \<noteq> i) (comments (db ?w')) =
        filter (\<lambda>c. c_id c \<noteq> c_id m) (filter (\<lambda>c. book_id c \<noteq> i) (comments (db w)))"
    unfolding c by (subst filter_swap) simp
  also have "\<dots> = filter (\<lambda>c. book_id c \<noteq> i) (comments (db w))"
    unfolding filter_id_conv using keep by simp
  finally have others: "filter (\<lambda>c. book_id c \<noteq> i) (comments (db ?w')) =
        filter (\<lambda>c. book_id c \<noteq> i) (comments (db w))" .
  have strict: "\<forall>c\<in>set (pre @ post). created_at m < created_at c"
    if inj: "inj_on created_at (set ?xs)"
  proof
    fix x assume x: "x \<in> set (pre @ post)"
    then have x_xs: "x \<in> set ?xs" by (subst xs) auto
    from d have "c_id m \<notin> c_id ` set (pre @ post)" by auto
    with x have "x \<noteq> m" by auto
    with inj x_xs m_xs have "created_at x \<noteq> created_at m"
      by (meson inj_onD)
    with m_old x_xs show "created_at m < created_at x" by fastforce
  qed
  from xs m_old k len gone here others strict show ?thesis by blast
qed

lemma full_lookup: "lookup 1 full_world = Inr book1"
  by (simp add: lookup_def full_world_def book1_def single_def)

lemma full_comments: "commentsOf 1 full_world = map old_comment [1..<21]"
  by (simp add: commentsOf_def full_world_def old_comment_def filter_map o_def)

lemma full_count: "length (commentsOf 1 full_world) = 20"
  by (simp add: full_comments)

lemma full_wf: "wf_comments (db full_world)"
proof -
  have "inj_on (\<lambda>k. c_id (old_comment k)) (set [1..<21])"
    by (simp add: old_comment_def inj_on_def)
  then have "distinct (map (\<lambda>k. c_id (old_comment k)) [1..<21])"
    by (simp add: distinct_map)
  moreover have "\<forall>k\<in>set [1..<21]. c_id (old_comment k) < 21"
    by (simp add: old_comment_def)
  ultimately show ?thesis
    by (simp add: wf_comments_def full_world_def list_all_iff o_def)
qed

lemma full_past: "\<forall>c\<in>set (commentsOf 1 full_world). created_at c < 200"
  by (simp add: full_comments old_comment_def)

lemma full_some_older: "\<exists>c\<in>set (commentsOf 1 full_world). created_at c < 200"
proof -
  have "old_comment 1 \<in> set (commentsOf 1 full_world)"
    unfolding full_comments set_map by (rule imageI) simp
  with full_past show ?thesis by blast
qed

lemma full_distinct_times: "inj_on created_at (set (commentsOf 1 full_world))"
  by (auto simp: full_comments old_comment_def inj_on_def)

lemma nf:
  "\<not> no_faults FindBook" "\<not> no_faults Insert" "\<not> no_faults ListComments"
  "\<not> no_faults Delete" "\<not> no_faults Update" "\<not> no_faults ReadBack"
  by (simp_all add: no_faults_def)

lemma fresh_wf: "wf_comments (db fresh_world)"
  by (simp add: wf_comments_def fresh_world_def)

lemma fresh_comments: "commentsOf 1 fresh_world = []"
  by (simp add: commentsOf_def fresh_world_def)

theorem addComment_count_witness:
  "length (commentsOf 1 full_world) = 20
   \<and> length (commentsOf 1 (snd (addComment no_faults by_created_at (Some 1) ''new'' 200 full_world))) = 20
   \<and> \<lparr>c_id = comment_seq (db full_world), book_id = 1, comment_text = ''new'', created_at = 200\<rparr>
       \<in> set (comments (db (snd (addComment no_faults by_created_at (Some 1) ''new'' 200 full_world))))
   \<and> length (commentsOf 1 (snd (addComment no_faults by_created_at (Some 1) ''new'' 200 fresh_world))) = 1"
proof -
  have le: "length (commentsOf 1 full_world) \<le> 20" by (simp add: full_count)
  have le0: "length (commentsOf 1 fresh_world) \<le> 20" by (simp add: fresh_comments)
  show ?thesis
    using addComment_count [OF full_lookup full_wf nf(1-4) ascending_by_created_at le,
            of "''new''" 200]
          addComment_count [OF fresh_lookup fresh_wf nf(1-4) ascending_by_created_at le0,
            of "''new''" 200]
          full_some_older
    by (simp add: full_count fresh_comments)
qed

theorem addComment_evicts_an_oldest_witness:
  "\<exists>pre old post.
      commentsOf 1 full_world = pre @ old # post
    \<and> (\<forall>c\<in>set (commentsOf 1 full_world). created_at old \<le> created_at c)
    \<and> commentsOf 1 (snd (addComment no_faults by_created_at (Some 1) ''new'' 200 full_world)) =
        pre @ post @
          [\<lparr>c_id = comment_seq (db full_world), book_id = 1, comment_text = ''new'',
            created_at = 200\<rparr>]
    \<and> length (commentsOf 1 (snd (addComment no_faults by_created_at (Some 1) ''new'' 200 full_world))) = 20
    \<and> old \<notin> set (comments (db (snd (addComment no_faults by_created_at (Some 1) ''new'' 200 full_world))))
    \<and> \<lparr>c_id = comment_seq (db full_world), book_id = 1, comment_text = ''new'', created_at = 200\<rparr>
        \<in> set (comments (db (snd (addComment no_faults by_created_at (Some 1) ''new'' 200 full_world))))
    \<and> filter (\<lambda>c. book_id c \<noteq> 1)
          (comments (db (snd (addComment no_faults by_created_at (Some 1) ''new'' 200 full_world)))) =
        filter (\<lambda>c. book_id c \<noteq> 1) (comments (db full_world))
    \<and> (\<forall>c\<in>set (pre @ post). created_at old < created_at c)"
proof -
  from addComment_evicts_an_oldest [OF full_lookup full_wf nf(1-4) ascending_by_created_at
         full_count full_some_older, of "''new''"]
  show ?thesis using full_distinct_times by blast
qed

lemma tie_lookup: "lookup 1 tie_world = Inr book1"
  by (simp add: lookup_def tie_world_def book1_def single_def)

lemma tie_comments: "commentsOf 1 tie_world = map tie_comment [1..<21]"
  by (simp add: commentsOf_def tie_world_def tie_comment_def filter_map o_def)

lemma tie_head:
  "ties_newest_first (commentsOf 1 tie_world @
      [\<lparr>c_id = comment_seq (db tie_world), book_id = 1, comment_text = ''new'', created_at = 200\<rparr>]) ! 0
   = tie_comment 2"
  unfolding tie_comments by code_simp

text \<open>
  Claim C2 as stated fails on ties: the handler orders by \<open>created_at\<close> alone. Under an
  ascending order that returns rows of equal timestamp newest first, the second of two rows
  of the earliest timestamp is evicted and the first, inserted before it, stays.
\<close>

theorem ties_not_in_insertion_order:
  "ascending ties_newest_first
   \<and> commentsOf 1 tie_world = map tie_comment [1..<21]
   \<and> created_at (tie_comment 1) = created_at (tie_comment 2)
   \<and> tie_comment 1
       \<in> set (comments (db (snd (addComment no_faults ties_newest_first (Some 1) ''new'' 200 tie_world))))
   \<and> tie_comment 2
       \<notin> set (comments (db (snd (addComment no_faults ties_newest_first (Some 1) ''new'' 200 tie_world))))"
proof -
  have n: "20 \<le> length (commentsOf 1 tie_world)" by (simp add: tie_comments)
  have c: "comments (db (snd (addComment no_faults ties_newest_first (Some 1) ''new'' 200 tie_world))) =
      filter (\<lambda>c. c_id c \<noteq> c_id (tie_comment 2))
        (comments (db tie_world) @
          [\<lparr>c_id = comment_seq (db tie_world), book_id = 1, comment_text = ''new'',
            created_at = 200\<rparr>])"
    using addComment_comments(1) [OF tie_lookup nf(1-3) ascending_ties_newest_first,
            of "''new''" 200] n nf(4)
    by (simp only: tie_head if_True simp_thms)
  have one: "tie_comment 1 \<in> set (comments (db tie_world))"
    by (simp add: tie_world_def)
  have ids: "c_id (tie_comment 1) \<noteq> c_id (tie_comment 2)"
    and same: "created_at (tie_comment 1) = created_at (tie_comment 2)"
    by (simp_all add: tie_comment_def)
  have in1: "tie_comment 1 \<in> set (comments (db (snd (addComment no_faults ties_newest_first (Some 1) ''new'' 200 tie_world))))"
    unfolding c using one ids by simp
  have out2: "tie_comment 2 \<notin> set (comments (db (snd (addComment no_faults ties_newest_first (Some 1) ''new'' 200 tie_world))))"
    unfolding c set_filter by blast
  from ascending_ties_newest_first tie_comments same in1 out2 show ?thesis by simp
qed

lemma lookup_books: "books (db w') = books (db w) \<Longrightarrow> lookup i w' = lookup i w"
  by (simp add: lookup_def)

lemma addComment_delete_error_swallowed:
  assumes "lookup i w = Inr b" "\<not> flt FindBook" "\<not> flt Insert" "\<not> flt ListComments"
    and "flt Delete" "\<not> flt ReadBack" "ascending orderBy" "20 \<le> length (commentsOf i w)"
  shows "status (fst (addComment flt orderBy (Some i) text now w)) = 201
       \<and> calls (snd (addComment flt orderBy (Some i) text now w)) =
           calls w @ [FindBook, Insert, ListComments, Delete, ReadBack]
       \<and> comments (db (snd (addComment flt orderBy (Some i) text now w))) =
           comments (db w) @
             [\<lparr>c_id = comment_seq (db w), book_id = i, comment_text = text, created_at = now\<rparr>]"
proof -
  from assms(1) have f: "filter (\<lambda>x. b_id x = i) (books (db w)) = [b]"
    by (simp add: lookup_def single_Inr)
  from assms(8) have n: "20 \<le> length (filter (\<lambda>c. book_id c = i) (comments (db w)))"
    by (simp add: commentsOf_def)
  show ?thesis
    using assms(2-6) f n
    by (simp add: addComment_def findBookById_def insertComment_def listCommentsByBook_def
          deleteComment_def findBookWithRelations_def Let_def issue_def single_def
          ascending_length [OF assms(7)])
qed

lemma insert_error_short_circuits:
  assumes "lookup i w = Inr b" "\<not> flt FindBook" "flt Insert"
  shows "addComment flt orderBy (Some i) text now w =
           (ServerError (Unavailable Insert), w\<lparr>calls := calls w @ [FindBook, Insert]\<rparr>)"
  using assms
  by (simp add: addComment_def findBookById_ok insertComment_def issue_def)

lemma list_error_short_circuits:
  assumes "lookup i w = Inr b" "\<not> flt FindBook" "\<not> flt Insert" "flt ListComments"
  shows "fst (addComment flt orderBy (Some i) text now w) = ServerError (Unavailable ListComments)
       \<and> calls (snd (addComment flt orderBy (Some i) text now w)) =
           calls w @ [FindBook, Insert, ListComments]"
  using assms
  by (simp add: addComment_def findBookById_ok insertComment_def listCommentsByBook_def issue_def)

lemma update_error_short_circuits:
  assumes "lookup i w = Inr b" "\<not> flt FindBook" "flt Update" "1 \<le> r" "r \<le> 5"
  shows "rateBook flt (Some i) r w =
           (ServerError (Unavailable Update), w\<lparr>calls := calls w @ [FindBook, Update]\<rparr>)"
  using assms
  by (simp add: rateBook_def findBookById_ok updateBook_def issue_def Let_def)

text \<open>
  Claim C7 fails on the eviction delete: its result is not looked at. With 20 comments in the
  book and a store that fails the delete, the handler goes on to the read-back and answers
  201, and the book is left with 21 comments.
\<close>

theorem eviction_error_swallowed:
  "status (fst (addComment delete_fails by_created_at (Some 1) ''new'' 200 full_world)) = 201
   \<and> calls (snd (addComment delete_fails by_created_at (Some 1) ''new'' 200 full_world)) =
       [FindBook, Insert, ListComments, Delete, ReadBack]
   \<and> length (commentsOf 1 (snd (addComment delete_fails by_created_at (Some 1) ''new'' 200 full_world))) = 21"
proof -
  have df: "\<not> delete_fails FindBook" "\<not> delete_fails Insert" "\<not> delete_fails ListComments"
    "delete_fails Delete" "\<not> delete_fails ReadBack"
    by (simp_all add: delete_fails_def)
  have n: "20 \<le> length (commentsOf 1 full_world)" by (simp add: full_count)
  have c: "calls full_world = []" by (simp add: full_world_def)
  note sw = addComment_delete_error_swallowed [OF full_lookup df ascending_by_created_at n,
              of "''new''" 200]
  from sw have "commentsOf 1 (snd (addComment delete_fails by_created_at (Some 1) ''new'' 200 full_world)) =
      commentsOf 1 full_world @
        [\<lparr>c_id = comment_seq (db full_world), book_id = 1, comment_text = ''new'', created_at = 200\<rparr>]"
    by (simp add: commentsOf_def)
  with sw c show ?thesis by (simp add: full_count)
qed

text \<open>
  Claim C8. Neither operation is idempotent. Rating an existing book twice with the same
  rating counts two votes. Commenting twice with the same text inserts two rows with
  different ids (the sequence advances by two), and both are in the table after the second
  call, whatever eviction removed: the existing comments are older than the first call, and
  the second call is not earlier than the first.
\<close>

theorem not_idempotent:
  assumes "lookup i w = Inr b" "wf_comments (db w)"
    and "\<not> flt FindBook" "\<not> flt Update" "\<not> flt Insert" "\<not> flt ListComments"
    and "ascending orderBy"
    and "1 \<le> r" "r \<le> 5"
    and "\<forall>c\<in>set (commentsOf i w). created_at c < now1" "now1 \<le> now2"
  shows "(\<exists>b'. lookup i (rateAll flt (Some i) [r, r] w) = Inr b'
              \<and> total_votes b' = total_votes b + 2)
       \<and> comment_seq (db (snd (addComment flt orderBy (Some i) text now2
                                  (snd (addComment flt orderBy (Some i) text now1 w))))) =
           comment_seq (db w) + 2
       \<and> \<lparr>c_id = comment_seq (db w), book_id = i, comment_text = text, created_at = now1\<rparr>
           \<in> set (comments (db (snd (addComment flt orderBy (Some i) text now2
                                      (snd (addComment flt orderBy (Some i) text now1 w))))))
       \<and> \<lparr>c_id = comment_seq (db w) + 1, book_id = i, comment_text = text, created_at = now2\<rparr>
           \<in> set (comments (db (snd (addComment flt orderBy (Some i) text now2
                                      (snd (addComment flt orderBy (Some i) text now1 w))))))"
proof -
  let ?seq = "comment_seq (db w)"
  let ?new1 = "\<lparr>c_id = ?seq, book_id = i, comment_text = text, created_at = now1\<rparr>"
  let ?new2 = "\<lparr>c_id = ?seq + 1, book_id = i, comment_text = text, created_at = now2\<rparr>"
  let ?w1 = "snd (addComment flt orderBy (Some i) text now1 w)"
  let ?w2 = "snd (addComment flt orderBy (Some i) text now2 ?w1)"
  let ?xs = "commentsOf i w"
  define m1 where "m1 = orderBy (?xs @ [?new1]) ! 0"
  have votes: "\<exists>b'. lookup i (rateAll flt (Some i) [r, r] w) = Inr b'
                 \<and> total_votes b' = total_votes b + 2"
    using rateAll_lookup [OF assms(3,4) assms(1), of "[r, r]"] assms(8,9) by simp
  note eff1 = addComment_comments [OF assms(1,3,5,6,7), of "text" now1]
  have ids: "c_id c < ?seq" if "c \<in> set ?xs" for c
    using that by (rule old_ids_below_seq [OF assms(2)])
  have m1: "m1 \<in> set ?xs" if "20 \<le> length ?xs"
  proof -
    from that obtain x where x: "x \<in> set ?xs" by (cases ?xs) auto
    have ne: "?xs @ [?new1] \<noteq> []" by simp
    from ascending_head [OF assms(7) ne]
    have "m1 \<in> set (?xs @ [?new1])" "created_at m1 \<le> created_at x"
      unfolding m1_def using x by simp_all
    moreover from x assms(10) have "created_at x < now1" by blast
    ultimately show ?thesis by auto
  qed
  have seq1: "comment_seq (db ?w1) = ?seq + 1" and books1: "books (db ?w1) = books (db w)"
    by (rule eff1(2), rule eff1(3))
  have c1: "comments (db ?w1) =
      (if 20 \<le> length ?xs \<and> \<not> flt Delete
       then filter (\<lambda>c. c_id c \<noteq> c_id m1) (comments (db w) @ [?new1])
       else comments (db w) @ [?new1])"
    unfolding m1_def by (rule eff1(1))
  have "\<exists>ys. commentsOf i ?w1 = ys @ [?new1] \<and> set ys \<subseteq> set ?xs
            \<and> ?new1 \<in> set (comments (db ?w1))"
  proof (cases "20 \<le> length ?xs \<and> \<not> flt Delete")
    case True
    have c: "comments (db ?w1) =
        filter (\<lambda>c. c_id c \<noteq> c_id m1) (comments (db w) @ [?new1])"
      unfolding c1 using True by (rule if_P)
    from True m1 ids have lt: "c_id m1 < ?seq" by blast
    have "commentsOf i ?w1 = filter (\<lambda>c. c_id c \<noteq> c_id m1) (?xs @ [?new1])"
      unfolding commentsOf_def c
      by (subst filter_swap) (simp add: commentsOf_def)
    with lt have "commentsOf i ?w1 = filter (\<lambda>c. c_id c \<noteq> c_id m1) ?xs @ [?new1]"
      by simp
    moreover have "set (filter (\<lambda>c. c_id c \<noteq> c_id m1) ?xs) \<subseteq> set ?xs" by simp
    moreover have "?new1 \<in> set (comments (db ?w1))"
      unfolding c using lt by simp
    ultimately show ?thesis by blast
  next
    case False
    have c: "comments (db ?w1) = comments (db w) @ [?new1]"
      unfolding c1 using False by (rule if_not_P)
    have "commentsOf i ?w1 = ?xs @ [?new1]"
      by (simp add: commentsOf_def c)
    with c show ?thesis by auto
  qed
  then obtain ys where ys: "commentsOf i ?w1 = ys @ [?new1]" and sub: "set ys \<subseteq> set ?xs"
    and in1: "?new1 \<in> set (comments (db ?w1))"
    by blast
  have look1: "lookup i ?w1 = Inr b"
    using lookup_books [OF books1] assms(1) by simp
  note eff2 = addComment_comments [OF look1 assms(3,5,6,7), of "text" now2]
  define m2 where "m2 = orderBy (commentsOf i ?w1 @ [?new2]) ! 0"
  have seq2: "comment_seq (db ?w2) = ?seq + 2"
    using eff2(2) seq1 by simp
  have m2: "c_id m2 < ?seq" if "20 \<le> length (commentsOf i ?w1)"
  proof -
    from that ys obtain y where y: "y \<in> set ys" by (cases ys) auto
    have ne: "commentsOf i ?w1 @ [?new2] \<noteq> []" by simp
    from ascending_head [OF assms(7) ne]
    have "m2 \<in> set (ys @ [?new1] @ [?new2])" "created_at m2 \<le> created_at y"
      unfolding m2_def ys using y by simp_all
    moreover from y sub assms(10) have "created_at y < now1" by blast
    ultimately have "m2 \<in> set ys" using assms(11) by auto
    with sub ids show ?thesis by blast
  qed
  have c2: "comments (db ?w2) =
      (if 20 \<le> length (commentsOf i ?w1) \<and> \<not> flt Delete
       then filter (\<lambda>c. c_id c \<noteq> c_id m2) (comments (db ?w1) @ [?new2])
       else comments (db ?w1) @ [?new2])"
    unfolding m2_def using eff2(1) by (simp only: seq1)
  have "?new1 \<in> set (comments (db ?w2)) \<and> ?new2 \<in> set (comments (db ?w2))"
  proof (cases "20 \<le> length (commentsOf i ?w1) \<and> \<not> flt Delete")
    case True
    have c: "comments (db ?w2) =
        filter (\<lambda>c. c_id c \<noteq> c_id m2) (comments (db ?w1) @ [?new2])"
      unfolding c2 using True by (rule if_P)
    from True m2 have "c_id m2 < ?seq" by blast
    then show ?thesis
      unfolding c using in1 by simp
  next
    case False
    have c: "comments (db ?w2) = comments (db ?w1) @ [?new2]"
      unfolding c2 using False by (rule if_not_P)
    show ?thesis unfolding c using in1 by simp
  qed
  with votes seq2 show ?thesis by simp
qed

theorem not_idempotent_witness:
  "(\<exists>b'. lookup 1 (rateAll no_faults (Some 1) [4, 4] full_world) = Inr b'
              \<and> total_votes b' = total_votes book1 + 2)
       \<and> comment_seq (db (snd (addComment no_faults by_created_at (Some 1) ''again'' 200
                                  (snd (addComment no_faults by_created_at (Some 1) ''again'' 200
                                          full_world))))) =
           comment_seq (db full_world) + 2
       \<and> \<lparr>c_id = comment_seq (db full_world), book_id = 1, comment_text = ''again'',
            created_at = 200\<rparr>
           \<in> set (comments (db (snd (addComment no_faults by_created_at (Some 1) ''again'' 200
                                      (snd (addComment no_faults by_created_at (Some 1) ''again'' 200
                                              full_world))))))
       \<and> \<lparr>c_id = comment_seq (db full_world) + 1, book_id = 1, comment_text = ''again'',
            created_at = 200\<rparr>
           \<in> set (comments (db (snd (addComment no_faults by_created_at (Some 1) ''again'' 200
                                      (snd (addComment no_faults by_created_at (Some 1) ''again'' 200
                                              full_world))))))"
proof -
  have r: "(1::real) \<le> 4" "(4::real) \<le> 5" and t: "(200::int) \<le> 200" by simp_all
  show ?thesis
    by (rule not_idempotent [OF full_lookup full_wf nf(1) nf(5) nf(2) nf(3)
          ascending_by_created_at r full_past t])
qed

text \<open>
  The primary-key condition assumed of the store above is an invariant of \<open>addComment\<close>,
  whatever fails and whatever the order.
\<close>

lemma wf_insert:
  assumes "wf_comments d"
  shows "wf_comments (d\<lparr>comments := comments d @
            [\<lparr>c_id = comment_seq d, book_id = i, comment_text = text, created_at = now\<rparr>],
          comment_seq := comment_seq d + 1\<rparr>)"
proof -
  from assms have d: "distinct (map c_id (comments d))"
    and lt: "\<forall>c\<in>set (comments d). c_id c < comment_seq d"
    by (simp_all add: wf_comments_def list_all_iff)
  from lt have "comment_seq d \<notin> c_id ` set (comments d)" by auto
  with d lt show ?thesis by (auto simp: wf_comments_def list_all_iff)
qed

lemma wf_delete:
  assumes "wf_comments d"
  shows "wf_comments (d\<lparr>comments := filter P (comments d)\<rparr>)"
  using assms by (auto simp: wf_comments_def list_all_iff distinct_map_filter)

lemma addComment_preserves_wf:
  assumes "wf_comments (db w)"
  shows "wf_comments (db (snd (addComment flt orderBy bookId text now w)))"
proof -
  have 1: "wf_comments (db (snd (insertComment flt bookId text now w1)))"
    if "wf_comments (db w1)" for w1
    using that wf_insert [OF that]
    by (auto simp: insertComment_def issue_def split: option.splits)
  have 2: "wf_comments (db (snd (deleteComment flt k w1)))" if "wf_comments (db w1)" for w1 k
    using wf_delete [OF that] that by (auto simp: deleteComment_def issue_def)
  have 3: "db (snd (findBookById flt bookId w1)) = db w1" for w1
    by (simp add: findBookById_def)
  have 4: "db (snd (listCommentsByBook flt orderBy bookId w1)) = db w1" for w1
    by (simp add: listCommentsByBook_def)
  have 5: "db (snd (findBookWithRelations flt bookId w1)) = db w1" for w1
    by (simp add: findBookWithRelations_def)
  show ?thesis
    unfolding addComment_def Let_def
    using assms 1 2 3 4 5
    by (auto split: prod.splits sum.splits) (metis snd_conv)+
qed

text \<open>The json-server variant evicts by position: the first text of the array goes.\<close>

lemma addCommentJson_shifts_first:
  assumes "find (\<lambda>b. jb_id b = i) bs = Some book" "length (jb_comments book) = 20"
  shows "addCommentJson (Some i) comment bs =
           (201, assignComments i (tl (jb_comments book) @ [comment]) bs)"
proof -
  from assms(2) have "jb_comments book \<noteq> []" by auto
  then have "tl (jb_comments book @ [comment]) = tl (jb_comments book) @ [comment]"
    by simp
  with assms show ?thesis by (simp add: addCommentJson_def Let_def)
qed

lemma addCommentJson_count:
  assumes "find (\<lambda>b. jb_id b = i) bs = Some book" "length (jb_comments book) \<le> 20"
  shows "\<exists>cs. addCommentJson (Some i) comment bs = (201, assignComments i cs bs)
            \<and> length cs = min (length (jb_comments book) + 1) 20"
  using assms by (auto simp: addCommentJson_def Let_def)

end
